theory Spec2Isabelle
  imports Main "HOL-Library.Word"
begin

section \<open>Python values used by debug_gguf.py\<close>

text \<open>
  A \<open>bytes\<close> object is a list of 8-bit words. A \<open>str\<close> is a list of Unicode code points
  (natural numbers); \<open>lit\<close> turns an ASCII literal of the source into such a list.
  Integers unpacked from the file are Python integers, modelled as \<open>nat\<close>.
\<close>

type_synonym byte = "8 word"
type_synonym pystr = "nat list"

definition lit :: "string \<Rightarrow> pystr" where
  "lit s = map of_char s"

definition quoted :: "pystr \<Rightarrow> pystr" where
  "quoted s = [39] @ s @ [39]"

subsection \<open>Number formatting: \<open>str\<close>, \<open>hex\<close>, the format \<open>2d\<close>, \<open>bytes.hex\<close>\<close>

fun str_nat :: "nat \<Rightarrow> pystr" where
  "str_nat n = (if n < 10 then [48 + n] else str_nat (n div 10) @ [48 + n mod 10])"

declare str_nat.simps [simp del]

definition hex_digit :: "nat \<Rightarrow> nat" where
  "hex_digit d = (if d < 10 then 48 + d else 87 + d)"

fun hex_nat :: "nat \<Rightarrow> pystr" where
  "hex_nat n = (if n < 16 then [hex_digit n] else hex_nat (n div 16) @ [hex_digit (n mod 16)])"

declare hex_nat.simps [simp del]

definition py_hex :: "nat \<Rightarrow> pystr" where
  "py_hex n = lit ''0x'' @ hex_nat n"

definition fmt_2d :: "nat \<Rightarrow> pystr" where
  "fmt_2d n = replicate (2 - length (str_nat n)) 32 @ str_nat n"

definition bytes_hex :: "byte list \<Rightarrow> pystr" where
  "bytes_hex bs = concat (map (\<lambda>b. [hex_digit (unat b div 16), hex_digit (unat b mod 16)]) bs)"

subsection \<open>\<open>bytes.decode('utf-8')\<close>, strict and with \<open>errors='replace'\<close>\<close>

text \<open>
  \<open>utf8_next\<close> decodes the sequence at the head of the input. It returns the code point
  and the number of bytes it takes, or \<open>None\<close> and the length of the invalid span, which
  the \<open>replace\<close> handler turns into one U+FFFD (65533). Overlong forms, surrogates and
  code points above U+10FFFF are invalid.
\<close>

definition is_cont :: "nat \<Rightarrow> bool" where
  "is_cont b \<longleftrightarrow> 128 \<le> b \<and> b < 192"

fun utf8_next :: "nat list \<Rightarrow> nat option \<times> nat" where
  "utf8_next [] = (None, 0)"
| "utf8_next (b0 # bs) =
    (if b0 < 128 then (Some b0, 1)
     else if b0 < 194 then (None, 1)
     else if b0 < 224 then
       (case bs of
          [] \<Rightarrow> (None, 1)
        | b1 # r1 \<Rightarrow>
            if is_cont b1 then (Some ((b0 - 192) * 64 + (b1 - 128)), 2) else (None, 1))
     else if b0 < 240 then
       (case bs of
          [] \<Rightarrow> (None, 1)
        | b1 # r1 \<Rightarrow>
            if \<not> is_cont b1 \<or> (if b1 < 160 then b0 = 224 else b0 = 237) then (None, 1)
            else (case r1 of
                    [] \<Rightarrow> (None, 2)
                  | b2 # r2 \<Rightarrow>
                      if is_cont b2
                      then (Some ((b0 - 224) * 4096 + (b1 - 128) * 64 + (b2 - 128)), 3)
                      else (None, 2)))
     else if b0 < 245 then
       (case bs of
          [] \<Rightarrow> (None, 1)
        | b1 # r1 \<Rightarrow>
            if \<not> is_cont b1 \<or> (if b1 < 144 then b0 = 240 else b0 = 244) then (None, 1)
            else (case r1 of
                    [] \<Rightarrow> (None, 2)
                  | b2 # r2 \<Rightarrow>
                      if \<not> is_cont b2 then (None, 2)
                      else (case r2 of
                              [] \<Rightarrow> (None, 3)
                            | b3 # r3 \<Rightarrow>
                                if is_cont b3
                                then (Some ((b0 - 240) * 262144 + (b1 - 128) * 4096
                                            + (b2 - 128) * 64 + (b3 - 128)), 4)
                                else (None, 3))))
     else (None, 1))"

fun decode_replace :: "nat list \<Rightarrow> pystr" where
  "decode_replace [] = []"
| "decode_replace (b # bs) =
    (case utf8_next (b # bs) of
       (Some c, k) \<Rightarrow> c # decode_replace (drop (k - 1) bs)
     | (None, k) \<Rightarrow> 65533 # decode_replace (drop (k - 1) bs))"

fun decode_strict :: "nat list \<Rightarrow> pystr option" where
  "decode_strict [] = Some []"
| "decode_strict (b # bs) =
    (case utf8_next (b # bs) of
       (Some c, k) \<Rightarrow> map_option ((#) c) (decode_strict (drop (k - 1) bs))
     | (None, k) \<Rightarrow> None)"

subsection \<open>\<open>struct.unpack\<close> of a little-endian unsigned integer\<close>

text \<open>
  \<open>StructError w\<close> is the \<open>struct.error\<close> raised when \<open>w\<close> bytes are needed and fewer are
  given; \<open>str_error\<close> is its message in CPython 3.
\<close>

datatype error = StructError nat

definition str_error :: "error \<Rightarrow> pystr" where
  "str_error e = (case e of StructError w \<Rightarrow>
     lit ''unpack requires a buffer of '' @ str_nat w @ lit '' bytes'')"

fun le_nat :: "byte list \<Rightarrow> nat" where
  "le_nat [] = 0"
| "le_nat (b # bs) = unat b + 256 * le_nat bs"

section \<open>The program state: standard output and the open file\<close>

text \<open>
  A state is the text written to standard output so far and the bytes of the file that
  are still unread. A statement maps a state to a result and a new state; the result is
  \<open>Inl e\<close> when the statement raises \<open>e\<close>. \<open>f.read(n)\<close> returns the next \<open>n\<close> bytes, or
  fewer at the end of the file, and never raises; \<open>struct.unpack\<close> raises
  \<open>struct.error\<close> when it is given fewer bytes than its format needs. Standard output is
  taken to accept every code point, and opening the file is not modelled:
  \<open>read_gguf_metadata\<close> starts from the bytes of the file.
\<close>

type_synonym state = "pystr \<times> byte list"
type_synonym 'a prog = "state \<Rightarrow> (error + 'a) \<times> state"

definition ret :: "'a \<Rightarrow> 'a prog" where
  "ret v s = (Inr v, s)"

definition raise :: "error \<Rightarrow> 'a prog" where
  "raise e s = (Inl e, s)"

definition bind :: "'a prog \<Rightarrow> ('a \<Rightarrow> 'b prog) \<Rightarrow> 'b prog" where
  "bind m f s = (case m s of (Inl e, s') \<Rightarrow> (Inl e, s') | (Inr v, s') \<Rightarrow> f v s')"

definition print_noend :: "pystr \<Rightarrow> unit prog" where
  "print_noend t s = (Inr (), (fst s @ t, snd s))"

definition print :: "pystr \<Rightarrow> unit prog" where
  "print t = print_noend (t @ [10])"

definition f_read :: "nat \<Rightarrow> byte list prog" where
  "f_read n s = (Inr (take n (snd s)), (fst s, drop n (snd s)))"

definition unpack :: "nat \<Rightarrow> byte list \<Rightarrow> nat prog" where
  "unpack w d = (if length d = w then ret (le_nat d) else raise (StructError w))"

section \<open>read_string\<close>

text \<open>
  \<open>bytes_decode\<close> is the \<open>try\<close> statement at the end of \<open>read_string\<close>: strict decoding,
  and decoding with replacement characters when that raises \<open>UnicodeDecodeError\<close>.
\<close>

definition bytes_decode :: "byte list \<Rightarrow> pystr" where
  "bytes_decode d = (case decode_strict (map unat d) of
       Some s \<Rightarrow> s
     | None \<Rightarrow> decode_replace (map unat d))"

definition read_string :: "pystr prog" where
  "read_string =
     bind (f_read 8) (\<lambda>d. bind (unpack 8 d) (\<lambda>len.
       if len > 10000
       then bind (print (lit ''Warning: String length '' @ str_nat len
                         @ lit '' seems too large, file may be corrupted''))
              (\<lambda>_. ret (lit ''<CORRUPTED>''))
       else bind (f_read len) (\<lambda>d. ret (bytes_decode d))))"

section \<open>read_gguf_metadata\<close>

definition type_sizes :: "nat \<rightharpoonup> nat" where
  "type_sizes = [0 \<mapsto> 1, 1 \<mapsto> 1, 2 \<mapsto> 1, 3 \<mapsto> 2, 4 \<mapsto> 2, 5 \<mapsto> 4, 6 \<mapsto> 4, 7 \<mapsto> 4,
                 8 \<mapsto> 8, 9 \<mapsto> 8, 10 \<mapsto> 8]"

text \<open>How a statement of the loop body hands control on.\<close>

datatype flow = Next | Break | Return

text \<open>The inner loop \<open>for j in range(array_len)\<close> over the elements of a string array.\<close>

fun string_array_loop :: "nat \<Rightarrow> flow prog" where
  "string_array_loop 0 = ret Next"
| "string_array_loop (Suc k) =
     bind (f_read 8) (\<lambda>d. bind (unpack 8 d) (\<lambda>str_len.
       if str_len > 10000
       then bind (print (lit ''      Warning: String in array too large, stopping''))
              (\<lambda>_. ret Return)
       else bind (f_read str_len) (\<lambda>_. string_array_loop k)))"

definition watch_key :: pystr where
  "watch_key = lit ''tokenizer.ggml.pre''"

definition entry_line :: "nat \<Rightarrow> pystr \<Rightarrow> nat \<Rightarrow> pystr" where
  "entry_line i key type_value =
     lit ''  '' @ fmt_2d (i + 1) @ lit ''. Key: '' @ quoted key @ lit '', Type: ''
     @ str_nat type_value"

definition found_marker :: "nat \<Rightarrow> pystr" where
  "found_marker type_value =
     lit '' *** FOUND tokenizer.ggml.pre with type '' @ str_nat type_value @ lit '' ***''"

text \<open>The body of the \<open>try\<close> block of iteration \<open>i\<close>.\<close>

definition entry_body :: "nat \<Rightarrow> flow prog" where
  "entry_body i =
     bind read_string (\<lambda>key.
     if key = lit ''<CORRUPTED>''
     then bind (print (lit ''  '' @ fmt_2d (i + 1) @ lit ''. Corrupted key, stopping''))
            (\<lambda>_. ret Break)
     else
     bind (f_read 4) (\<lambda>d. bind (unpack 4 d) (\<lambda>type_value.
     bind (print_noend (entry_line i key type_value)) (\<lambda>_.
     bind (if key = watch_key then print (found_marker type_value) else print []) (\<lambda>_.
     if type_value = 8 then
       bind (f_read 8) (\<lambda>d. bind (unpack 8 d) (\<lambda>value_len.
         if value_len > 10000
         then bind (print (lit ''      Warning: String value length '' @ str_nat value_len
                           @ lit '' too large, skipping''))
                (\<lambda>_. ret Break)
         else bind (f_read value_len) (\<lambda>v.
           if key = watch_key
           then (case decode_strict (map unat v) of
                   Some s \<Rightarrow> bind (print (lit ''      Value: '' @ quoted s)) (\<lambda>_. ret Next)
                 | None \<Rightarrow> bind (print (lit ''      Value (hex): '' @ bytes_hex v))
                             (\<lambda>_. ret Next))
           else ret Next)))
     else if type_value = 9 then
       bind (f_read 4) (\<lambda>d. bind (unpack 4 d) (\<lambda>array_type.
       bind (f_read 8) (\<lambda>d. bind (unpack 8 d) (\<lambda>array_len.
       bind (if key = watch_key
             then print (lit ''      Array type: '' @ str_nat array_type
                         @ lit '', Array length: '' @ str_nat array_len)
             else ret ()) (\<lambda>_.
       if array_len > 100000
       then bind (print (lit ''      Warning: Array length '' @ str_nat array_len
                         @ lit '' too large, stopping''))
              (\<lambda>_. ret Break)
       else if array_type = 8 then string_array_loop array_len
       else (case type_sizes array_type of
               Some w \<Rightarrow> bind (f_read (array_len * w)) (\<lambda>_. ret Next)
             | None \<Rightarrow> ret Next))))))
     else (case type_sizes type_value of
             Some w \<Rightarrow> bind (f_read w) (\<lambda>_. ret Next)
           | None \<Rightarrow> ret Next))))))"

text \<open>One iteration: the \<open>try\<close> block with its \<open>except Exception\<close> handler.\<close>

definition entry_iter :: "nat \<Rightarrow> flow prog" where
  "entry_iter i s =
     (case entry_body i s of
        (Inr c, s') \<Rightarrow> (Inr c, s')
      | (Inl e, s') \<Rightarrow>
          bind (print (lit ''  Error reading key '' @ str_nat (i + 1) @ lit '': ''
                       @ str_error e))
            (\<lambda>_. ret Break) s')"

text \<open>How \<open>read_gguf_metadata\<close> leaves the loop \<open>for i in range(min(kv_count, 50))\<close>.\<close>

datatype outcome = Completed | LoopBroken | Returned

function entry_loop :: "nat \<Rightarrow> nat \<Rightarrow> state \<Rightarrow> (error + outcome) \<times> state" where
  "entry_loop i n s =
     (if i < n
      then (case entry_iter i s of
              (Inr Next, s') \<Rightarrow> entry_loop (i + 1) n s'
            | (Inr Break, s') \<Rightarrow> (Inr LoopBroken, s')
            | (Inr Return, s') \<Rightarrow> (Inr Returned, s')
            | (Inl e, s') \<Rightarrow> (Inl e, s'))
      else (Inr Completed, s))"
  by pat_completeness auto
termination
  by (relation "measure (\<lambda>(i, n, s). n - i)") auto

declare entry_loop.simps [simp del]

definition read_gguf_metadata :: "byte list \<Rightarrow> (error + outcome) \<times> state" where
  "read_gguf_metadata file =
     bind (f_read 4) (\<lambda>d. bind (unpack 4 d) (\<lambda>magic.
     bind (f_read 4) (\<lambda>d. bind (unpack 4 d) (\<lambda>version.
     bind (f_read 8) (\<lambda>d. bind (unpack 8 d) (\<lambda>tensor_count.
     bind (f_read 8) (\<lambda>d. bind (unpack 8 d) (\<lambda>kv_count.
     bind (print (lit ''Magic: '' @ py_hex magic @ lit '', Version: '' @ str_nat version)) (\<lambda>_.
     bind (print (lit ''Tensor count: '' @ str_nat tensor_count @ lit '', KV count: ''
                  @ str_nat kv_count)) (\<lambda>_.
     bind (print ([10] @ lit ''Metadata keys:'')) (\<lambda>_.
     entry_loop 0 (min kv_count 50))))))))))))
     ([], file)"

section \<open>The byte layout of inputs\<close>

text \<open>
  \<open>pack_le w n\<close> is the \<open>w\<close>-byte little-endian form of \<open>n\<close>, the inverse of the unpacking
  above (\<open>struct.pack\<close> with \<open><I\<close> for \<open>w = 4\<close> and \<open><Q\<close> for \<open>w = 8\<close>); \<open>ascii\<close> gives
  the bytes of an ASCII literal. They describe the inputs the theorems are about.
\<close>

fun pack_le :: "nat \<Rightarrow> nat \<Rightarrow> byte list" where
  "pack_le 0 n = []"
| "pack_le (Suc w) n = of_nat (n mod 256) # pack_le w (n div 256)"

definition ascii :: "string \<Rightarrow> byte list" where
  "ascii s = map of_char s"

abbreviation pack_str :: "byte list \<Rightarrow> byte list" where
  "pack_str d \<equiv> pack_le 8 (length d) @ d"

definition pack_header :: "nat \<Rightarrow> nat \<Rightarrow> nat \<Rightarrow> nat \<Rightarrow> byte list" where
  "pack_header magic version tensor_count kv_count =
     pack_le 4 magic @ pack_le 4 version @ pack_le 8 tensor_count @ pack_le 8 kv_count"

section \<open>The text of the report\<close>

text \<open>
  \<open>header_text\<close> is what the three \<open>print\<close> calls behind the header reads write.
  \<open>entry_head\<close> is what lines 38 to 43 of the source print for an entry: the entry line,
  the marker on the same line when the key is the watched one, and the end of the line.
  \<open>array_detail\<close> is the line of line 61, printed for the watched key only.
\<close>

definition header_text :: "nat \<Rightarrow> nat \<Rightarrow> nat \<Rightarrow> nat \<Rightarrow> pystr" where
  "header_text magic version tensor_count kv_count =
     lit ''Magic: '' @ py_hex magic @ lit '', Version: '' @ str_nat version @ [10]
     @ lit ''Tensor count: '' @ str_nat tensor_count @ lit '', KV count: '' @ str_nat kv_count
     @ [10]
     @ [10] @ lit ''Metadata keys:'' @ [10]"

definition entry_head :: "nat \<Rightarrow> pystr \<Rightarrow> nat \<Rightarrow> pystr" where
  "entry_head i key type_value =
     entry_line i key type_value
     @ (if key = watch_key then found_marker type_value else []) @ [10]"

definition array_detail :: "pystr \<Rightarrow> nat \<Rightarrow> nat \<Rightarrow> pystr" where
  "array_detail key array_type array_len =
     (if key = watch_key
      then lit ''      Array type: '' @ str_nat array_type @ lit '', Array length: ''
           @ str_nat array_len @ [10]
      else [])"

definition key_warning :: "nat \<Rightarrow> pystr" where
  "key_warning n =
     lit ''Warning: String length '' @ str_nat n
     @ lit '' seems too large, file may be corrupted'' @ [10]"

definition corrupted_key_line :: "nat \<Rightarrow> pystr" where
  "corrupted_key_line i = lit ''  '' @ fmt_2d (i + 1) @ lit ''. Corrupted key, stopping'' @ [10]"

definition value_warning :: "nat \<Rightarrow> pystr" where
  "value_warning n =
     lit ''      Warning: String value length '' @ str_nat n @ lit '' too large, skipping''
     @ [10]"

definition array_warning :: "nat \<Rightarrow> pystr" where
  "array_warning n =
     lit ''      Warning: Array length '' @ str_nat n @ lit '' too large, stopping'' @ [10]"

definition element_warning :: pystr where
  "element_warning = lit ''      Warning: String in array too large, stopping'' @ [10]"

definition value_detail :: "byte list \<Rightarrow> pystr" where
  "value_detail v =
     (case decode_strict (map unat v) of
        Some s \<Rightarrow> lit ''      Value: '' @ quoted s
      | None \<Rightarrow> lit ''      Value (hex): '' @ bytes_hex v) @ [10]"

section \<open>Well-formed entries\<close>

text \<open>
  The layout of an entry, after the on-disk format of the specification: a
  length-prefixed key, a 32-bit type code and the value. A value is a scalar of a
  fixed-width type (its bytes), a STRING (a length-prefixed payload), an ARRAY of strings
  or an ARRAY of a fixed-width element type (element type, count, raw bytes). An entry is
  well formed when every declared length is within the limits of the parser (10000 for a
  string, 100000 for an array) and every fixed-width payload has the size the table of
  widths gives. \<open>entry_report i e\<close> is the text that a well-formed entry yields as entry
  number \<open>i\<close>: one entry line and, for the watched key, one line of detail.
\<close>

datatype gvalue =
    Scalar nat "byte list"
  | Str "byte list"
  | StrArray "byte list list"
  | FixedArray nat nat "byte list"

type_synonym entry = "byte list \<times> gvalue"

fun type_code :: "gvalue \<Rightarrow> nat" where
  "type_code (Scalar t p) = t"
| "type_code (Str v) = 8"
| "type_code (StrArray es) = 9"
| "type_code (FixedArray t n p) = 9"

fun pack_value :: "gvalue \<Rightarrow> byte list" where
  "pack_value (Scalar t p) = pack_le 4 t @ p"
| "pack_value (Str v) = pack_le 4 8 @ pack_str v"
| "pack_value (StrArray es) =
     pack_le 4 9 @ pack_le 4 8 @ pack_le 8 (length es) @ concat (map pack_str es)"
| "pack_value (FixedArray t n p) = pack_le 4 9 @ pack_le 4 t @ pack_le 8 n @ p"

definition pack_entry :: "entry \<Rightarrow> byte list" where
  "pack_entry e = pack_str (fst e) @ pack_value (snd e)"

fun wf_value :: "gvalue \<Rightarrow> bool" where
  "wf_value (Scalar t p) \<longleftrightarrow> t \<noteq> 8 \<and> t \<noteq> 9 \<and> type_sizes t = Some (length p)"
| "wf_value (Str v) \<longleftrightarrow> length v \<le> 10000"
| "wf_value (StrArray es) \<longleftrightarrow> length es \<le> 100000 \<and> (\<forall>e \<in> set es. length e \<le> 10000)"
| "wf_value (FixedArray t n p) \<longleftrightarrow>
     t \<noteq> 8 \<and> t \<noteq> 9 \<and> n \<le> 100000
     \<and> (case type_sizes t of Some w \<Rightarrow> length p = n * w | None \<Rightarrow> False)"

definition wf_entry :: "entry \<Rightarrow> bool" where
  "wf_entry e \<longleftrightarrow> length (fst e) \<le> 10000 \<and> wf_value (snd e)"

fun value_report :: "pystr \<Rightarrow> gvalue \<Rightarrow> pystr" where
  "value_report key (Scalar t p) = []"
| "value_report key (Str v) = (if key = watch_key then value_detail v else [])"
| "value_report key (StrArray es) = array_detail key 8 (length es)"
| "value_report key (FixedArray t n p) = array_detail key t n"

definition entry_report :: "nat \<Rightarrow> entry \<Rightarrow> pystr" where
  "entry_report i e =
     entry_head i (bytes_decode (fst e)) (type_code (snd e))
     @ value_report (bytes_decode (fst e)) (snd e)"

fun entries_report :: "nat \<Rightarrow> entry list \<Rightarrow> pystr" where
  "entries_report i [] = []"
| "entries_report i (e # es) = entry_report i e @ entries_report (i + 1) es"

section \<open>Reads that stay within a prefix of the file\<close>

text \<open>
  A statement is framed when every run of it that leaves part of the file unread has read
  a prefix \<open>c\<close> of the file only, and runs in the same way on \<open>c\<close> followed by any
  other bytes.
\<close>

definition frame :: "'a prog \<Rightarrow> bool" where
  "frame m \<longleftrightarrow>
     (\<forall>out xs r out' xs'. m (out, xs) = (r, (out', xs')) \<longrightarrow> xs' \<noteq> [] \<longrightarrow>
        (\<exists>c. xs = c @ xs' \<and> (\<forall>ys. m (out, c @ ys) = (r, (out', ys)))))"

section \<open>Unpacking what was packed\<close>

lemma length_pack_le [simp]: "length (pack_le w n) = w"
  by (induction w arbitrary: n) auto

lemma le_nat_pack_le: "n < 256 ^ w \<Longrightarrow> le_nat (pack_le w n) = n"
proof (induction w arbitrary: n)
  case 0
  then show ?case by simp
next
  case (Suc w)
  have "n div 256 < 256 ^ w"
    using Suc.prems by (simp add: less_mult_imp_div_less mult.commute)
  then have "le_nat (pack_le w (n div 256)) = n div 256"
    by (rule Suc.IH)
  moreover have "unat (of_nat (n mod 256) :: byte) = n mod 256"
    by (simp add: unat_of_nat)
  ultimately show ?case by simp
qed

lemma le_nat_pack4 [simp]: "n < 4294967296 \<Longrightarrow> le_nat (pack_le 4 n) = n"
  by (rule le_nat_pack_le) simp

lemma le_nat_pack8 [simp]: "n < 18446744073709551616 \<Longrightarrow> le_nat (pack_le 8 n) = n"
  by (rule le_nat_pack_le) simp

section \<open>Running statements on a state\<close>

lemma ret_apply [simp]: "ret v s = (Inr v, s)"
  by (simp add: ret_def)

lemma bind_ret [simp]: "bind (ret v) f s = f v s"
  by (simp add: bind_def)

lemma bind_print_noend [simp]: "bind (print_noend t) f (out, bs) = f () (out @ t, bs)"
  by (simp add: bind_def print_noend_def)

lemma bind_print [simp]: "bind (print t) f (out, bs) = f () (out @ t @ [10], bs)"
  by (simp add: print_def)

lemma bind_f_read [simp]: "bind (f_read n) f (out, bs) = f (take n bs) (out, drop n bs)"
  by (simp add: bind_def f_read_def)

lemma bind_unpack [simp]:
  "bind (unpack w d) f s = (if length d = w then f (le_nat d) s else (Inl (StructError w), s))"
  by (simp add: bind_def unpack_def raise_def)

section \<open>One iteration of the loop on a laid-out entry\<close>

lemma read_string_ok:
  "length kb \<le> 10000 \<Longrightarrow>
   read_string (out, pack_le 8 (length kb) @ kb @ rest) = (Inr (bytes_decode kb), (out, rest))"
  by (simp add: read_string_def)

lemma read_string_overflow:
  "10000 < n \<Longrightarrow> n < 2 ^ 64 \<Longrightarrow>
   read_string (out, pack_le 8 n @ rest) = (Inr (lit ''<CORRUPTED>''), (out @ key_warning n, rest))"
  by (simp add: read_string_def key_warning_def)

lemma bind_read_string_ok:
  "length kb \<le> 10000 \<Longrightarrow>
   bind read_string f (out, pack_le 8 (length kb) @ kb @ rest) = f (bytes_decode kb) (out, rest)"
  using read_string_ok [of kb out rest] by (simp add: bind_def)

lemma bind_read_string_overflow:
  "10000 < n \<Longrightarrow> n < 2 ^ 64 \<Longrightarrow>
   bind read_string f (out, pack_le 8 n @ rest) = f (lit ''<CORRUPTED>'') (out @ key_warning n, rest)"
  using read_string_overflow [of n out rest] by (simp add: bind_def)

lemma string_array_loop_ok:
  "\<forall>e \<in> set es. length e \<le> 10000 \<Longrightarrow>
   string_array_loop (length es) (out, concat (map pack_str es) @ rest) = (Inr Next, (out, rest))"
  by (induction es) simp_all

lemma string_array_loop_overflow:
  "\<forall>e \<in> set es. length e \<le> 10000 \<Longrightarrow> length es < n \<Longrightarrow> 10000 < big \<Longrightarrow> big < 2 ^ 64 \<Longrightarrow>
   string_array_loop n (out, concat (map pack_str es) @ pack_le 8 big @ rest) =
     (Inr Return, (out @ element_warning, rest))"
proof (induction es arbitrary: n)
  case Nil
  then obtain k where "n = Suc k" by (cases n) auto
  with Nil show ?case by (simp add: element_warning_def)
next
  case (Cons e es)
  then obtain k where "n = Suc k" by (cases n) auto
  with Cons show ?case by simp
qed

lemma body_key_overflow:
  assumes "10000 < n" "n < 2 ^ 64"
  shows "entry_body i (out, pack_le 8 n @ rest) =
     (Inr Break, (out @ key_warning n @ corrupted_key_line i, rest))"
  unfolding entry_body_def
  using assms by (simp add: bind_read_string_overflow corrupted_key_line_def)

lemma body_key_sentinel:
  assumes "length kb \<le> 10000" "bytes_decode kb = lit ''<CORRUPTED>''"
  shows "entry_body i (out, pack_str kb @ rest) = (Inr Break, (out @ corrupted_key_line i, rest))"
  unfolding entry_body_def
  using assms by (simp add: bind_read_string_ok corrupted_key_line_def)

lemma body_string_overflow:
  assumes "length kb \<le> 10000" "bytes_decode kb \<noteq> lit ''<CORRUPTED>''"
    "10000 < n" "n < 2 ^ 64"
  shows "entry_body i (out, pack_str kb @ pack_le 4 8 @ pack_le 8 n @ rest) =
     (Inr Break, (out @ entry_head i (bytes_decode kb) 8 @ value_warning n, rest))"
  unfolding entry_body_def
  using assms
  by (simp add: bind_read_string_ok entry_head_def value_warning_def)

lemma body_string_ok:
  assumes "length kb \<le> 10000" "bytes_decode kb \<noteq> lit ''<CORRUPTED>''"
    "length v \<le> 10000"
  shows "entry_body i (out, pack_str kb @ pack_le 4 8 @ pack_str v @ rest) =
     (Inr Next,
      (out @ entry_head i (bytes_decode kb) 8
           @ (if bytes_decode kb = watch_key then value_detail v else []), rest))"
  unfolding entry_body_def
  using assms
  by (simp add: bind_read_string_ok entry_head_def value_detail_def split: option.split)

lemma body_array_len_overflow:
  assumes "length kb \<le> 10000" "bytes_decode kb \<noteq> lit ''<CORRUPTED>''"
    "t < 2 ^ 32" "100000 < n" "n < 2 ^ 64"
  shows "entry_body i (out, pack_str kb @ pack_le 4 9 @ pack_le 4 t @ pack_le 8 n @ rest) =
     (Inr Break,
      (out @ entry_head i (bytes_decode kb) 9 @ array_detail (bytes_decode kb) t n
           @ array_warning n, rest))"
  unfolding entry_body_def
  using assms
  by (simp add: bind_read_string_ok entry_head_def array_detail_def array_warning_def)

lemma body_array_strings_overflow:
  assumes "length kb \<le> 10000" "bytes_decode kb \<noteq> lit ''<CORRUPTED>''"
    "n \<le> 100000" "\<forall>e \<in> set es. length e \<le> 10000" "length es < n"
    "10000 < big" "big < 2 ^ 64"
  shows "entry_body i (out, pack_str kb @ pack_le 4 9 @ pack_le 4 8 @ pack_le 8 n
                            @ concat (map pack_str es) @ pack_le 8 big @ rest) =
     (Inr Return,
      (out @ entry_head i (bytes_decode kb) 9 @ array_detail (bytes_decode kb) 8 n
           @ element_warning, rest))"
  unfolding entry_body_def
  using assms
  by (simp add: bind_read_string_ok entry_head_def array_detail_def string_array_loop_overflow)

lemma body_array_strings_ok:
  assumes "length kb \<le> 10000" "bytes_decode kb \<noteq> lit ''<CORRUPTED>''"
    "length es \<le> 100000" "\<forall>e \<in> set es. length e \<le> 10000"
  shows "entry_body i (out, pack_str kb @ pack_le 4 9 @ pack_le 4 8 @ pack_le 8 (length es)
                            @ concat (map pack_str es) @ rest) =
     (Inr Next,
      (out @ entry_head i (bytes_decode kb) 9 @ array_detail (bytes_decode kb) 8 (length es),
       rest))"
  unfolding entry_body_def
  using assms
  by (simp add: bind_read_string_ok entry_head_def array_detail_def string_array_loop_ok)

lemma body_array_fixed:
  assumes "length kb \<le> 10000" "bytes_decode kb \<noteq> lit ''<CORRUPTED>''"
    "t \<noteq> 8" "type_sizes t = Some w" "n \<le> 100000" "length p = n * w"
  shows "entry_body i (out, pack_str kb @ pack_le 4 9 @ pack_le 4 t @ pack_le 8 n @ p @ rest) =
     (Inr Next,
      (out @ entry_head i (bytes_decode kb) 9 @ array_detail (bytes_decode kb) t n, rest))"
proof -
  have "t \<le> 10"
    using assms(4) by (auto simp: type_sizes_def split: if_splits)
  then have "t < 2 ^ 32"
    by simp
  then show ?thesis
    unfolding entry_body_def
    using assms
    by (simp add: bind_read_string_ok entry_head_def array_detail_def)
qed

lemma body_array_unknown:
  assumes "length kb \<le> 10000" "bytes_decode kb \<noteq> lit ''<CORRUPTED>''"
    "type_sizes t = None" "t < 2 ^ 32" "n \<le> 100000"
  shows "entry_body i (out, pack_str kb @ pack_le 4 9 @ pack_le 4 t @ pack_le 8 n @ rest) =
     (Inr Next,
      (out @ entry_head i (bytes_decode kb) 9 @ array_detail (bytes_decode kb) t n, rest))"
proof -
  have "t \<noteq> 8"
    using assms(3) by (auto simp: type_sizes_def)
  then show ?thesis
    unfolding entry_body_def
    using assms
    by (simp add: bind_read_string_ok entry_head_def array_detail_def)
qed

lemma body_scalar:
  assumes "length kb \<le> 10000" "bytes_decode kb \<noteq> lit ''<CORRUPTED>''"
    "t \<noteq> 8" "t \<noteq> 9" "type_sizes t = Some w" "length p = w"
  shows "entry_body i (out, pack_str kb @ pack_le 4 t @ p @ rest) =
     (Inr Next, (out @ entry_head i (bytes_decode kb) t, rest))"
proof -
  have "t \<le> 10"
    using assms(5) by (auto simp: type_sizes_def split: if_splits)
  then have "t < 2 ^ 32"
    by simp
  then show ?thesis
    unfolding entry_body_def
    using assms
    by (simp add: bind_read_string_ok entry_head_def)
qed

lemma body_unknown:
  assumes "length kb \<le> 10000" "bytes_decode kb \<noteq> lit ''<CORRUPTED>''"
    "type_sizes t = None" "t < 2 ^ 32"
  shows "entry_body i (out, pack_str kb @ pack_le 4 t @ rest) =
     (Inr Next, (out @ entry_head i (bytes_decode kb) t, rest))"
proof -
  have "t \<noteq> 8" "t \<noteq> 9"
    using assms(3) by (auto simp: type_sizes_def)
  then show ?thesis
    unfolding entry_body_def
    using assms
    by (simp add: bind_read_string_ok entry_head_def)
qed

section \<open>The loop\<close>

lemma entry_iter_eq: "entry_body i s = (Inr c, s') \<Longrightarrow> entry_iter i s = (Inr c, s')"
  by (simp add: entry_iter_def)

lemma entry_loop_next:
  "i < n \<Longrightarrow> entry_body i s = (Inr Next, s') \<Longrightarrow> entry_loop i n s = entry_loop (i + 1) n s'"
  by (simp add: entry_loop.simps entry_iter_eq)

lemma entry_loop_break:
  "i < n \<Longrightarrow> entry_body i s = (Inr Break, s') \<Longrightarrow> entry_loop i n s = (Inr LoopBroken, s')"
  by (simp add: entry_loop.simps entry_iter_eq)

lemma entry_loop_return:
  "i < n \<Longrightarrow> entry_body i s = (Inr Return, s') \<Longrightarrow> entry_loop i n s = (Inr Returned, s')"
  by (simp add: entry_loop.simps entry_iter_eq)

lemma entry_loop_done: "\<not> i < n \<Longrightarrow> entry_loop i n s = (Inr Completed, s)"
  by (simp add: entry_loop.simps)

lemma read_gguf_metadata_header:
  assumes "magic < 2 ^ 32" "version < 2 ^ 32" "tensor_count < 2 ^ 64" "kv_count < 2 ^ 64"
  shows "read_gguf_metadata (pack_header magic version tensor_count kv_count @ body) =
    entry_loop 0 (min kv_count 50) (header_text magic version tensor_count kv_count, body)"
  using assms by (simp add: read_gguf_metadata_def pack_header_def header_text_def)

section \<open>ASCII text\<close>

lemma decode_strict_ascii: "\<forall>b \<in> set bs. b < 128 \<Longrightarrow> decode_strict bs = Some bs"
  by (induction bs) simp_all

lemma unat_of_char: "unat (of_char c :: byte) = of_char c"
proof -
  have "unat (of_nat (of_char c) :: byte) = of_char c mod 256"
    by (simp add: unat_of_nat)
  then show ?thesis
    by (simp add: of_nat_of_char)
qed

lemma bytes_decode_ascii:
  "\<forall>c \<in> set s. (of_char c :: nat) < 128 \<Longrightarrow> bytes_decode (ascii s) = lit s"
proof -
  assume a: "\<forall>c \<in> set s. (of_char c :: nat) < 128"
  have m: "map unat (ascii s) = lit s"
    by (simp add: ascii_def lit_def unat_of_char)
  have "\<forall>b \<in> set (lit s). b < 128"
    using a by (simp add: lit_def)
  then have "decode_strict (lit s) = Some (lit s)"
    by (rule decode_strict_ascii)
  then show ?thesis
    by (simp add: bytes_decode_def m)
qed

section \<open>The header\<close>

text \<open>
  C7. A file shorter than 24 bytes: one of the four header reads comes up short and
  \<open>struct.unpack\<close> raises (the short read), outside every \<open>try\<close>, so the exception leaves
  \<open>read_gguf_metadata\<close>. Nothing has been printed and the loop over the entries is never
  entered: its result would be \<open>Inr\<close>, and each of its iterations prints.
\<close>

theorem short_header:
  "length file < 24 \<Longrightarrow>
   read_gguf_metadata file = (Inl (StructError (if length file < 8 then 4 else 8)), ([], []))"
  by (auto simp add: read_gguf_metadata_def)

theorem short_header_witness:
  "length (ascii ''GGUF'' @ pack_le 4 3 @ pack_le 8 0) < 24 \<and>
   read_gguf_metadata (ascii ''GGUF'' @ pack_le 4 3 @ pack_le 8 0)
     = (Inl (StructError 8), ([], []))"
  using short_header [of "ascii ''GGUF'' @ pack_le 4 3 @ pack_le 8 0"]
  by (simp add: ascii_def)

section \<open>ASCII keys and values used below\<close>

lemma length_ascii [simp]: "length (ascii s) = length s"
  by (simp add: ascii_def)

lemma type_sizes_None: "type_sizes t = None \<longleftrightarrow> 10 < t"
  apply (auto simp: type_sizes_def)
  apply arith
  done

lemma type_sizes_9: "type_sizes 9 = Some 8"
  by (simp add: type_sizes_def)

lemma lit_k: "bytes_decode (ascii ''k'') = lit ''k''"
  by (rule bytes_decode_ascii) simp

lemma k_not_sentinel: "lit ''k'' \<noteq> lit ''<CORRUPTED>''"
  by (simp add: lit_def)

lemma k_not_watch: "lit ''k'' \<noteq> watch_key"
  by (simp add: lit_def watch_key_def)

lemma lit_name: "bytes_decode (ascii ''name'') = lit ''name''"
  by (rule bytes_decode_ascii) simp

lemma name_not_sentinel: "lit ''name'' \<noteq> lit ''<CORRUPTED>''"
  by (simp add: lit_def)

lemma name_not_watch: "lit ''name'' \<noteq> watch_key"
  by (simp add: lit_def watch_key_def)

lemma type_sizes_5: "type_sizes 5 = Some 4"
  by (simp add: type_sizes_def)

lemma lit_sentinel: "bytes_decode (ascii ''<CORRUPTED>'') = lit ''<CORRUPTED>''"
  by (rule bytes_decode_ascii) simp

lemma lit_watch: "bytes_decode (ascii ''tokenizer.ggml.pre'') = watch_key"
  unfolding watch_key_def by (rule bytes_decode_ascii) simp

lemma watch_not_sentinel: "watch_key \<noteq> lit ''<CORRUPTED>''"
  by (simp add: watch_key_def lit_def)

lemma str_nat_8: "str_nat 8 = [56]"
  by (simp add: str_nat.simps)

lemma watch_key_text: "watch_key = map of_char ''tokenizer.ggml.pre''"
  by (simp add: watch_key_def lit_def)

lemma header_text_example:
  "header_text 1179993927 3 0 (Suc 0) =
     map of_char ''Magic: 0x46554747, Version: 3'' @ [10]
     @ map of_char ''Tensor count: 0, KV count: 1'' @ [10]
     @ [10] @ map of_char ''Metadata keys:'' @ [10]"
  by (simp add: header_text_def py_hex_def hex_nat.simps hex_digit_def str_nat.simps lit_def)

lemma fmt_2d_1: "fmt_2d (Suc 0) = map of_char '' 1''"
  by (simp add: fmt_2d_def str_nat.simps)

lemma value_detail_llama3:
  "value_detail (ascii ''llama3'') = lit ''      Value: '' @ quoted (lit ''llama3'') @ [10]"
proof -
  have "map unat (ascii ''llama3'') = lit ''llama3''"
    by (simp add: ascii_def lit_def unat_of_char)
  moreover have "decode_strict (lit ''llama3'') = Some (lit ''llama3'')"
    by (rule decode_strict_ascii) (simp add: lit_def)
  ultimately show ?thesis
    by (simp add: value_detail_def)
qed

section \<open>Oversized and sentinel keys\<close>

text \<open>
  C4. At any iteration \<open>i\<close> of the loop, with any report \<open>out\<close> printed so far: when the
  declared key length \<open>n\<close> exceeds 10000, \<open>read_string\<close> prints its warning, the loop
  prints the "Corrupted key, stopping" line and is left by \<open>break\<close>. The report printed
  before is kept as it was, no further iteration runs whatever the bound \<open>cap\<close>, and the
  file is left right behind the 8-byte length field: none of the declared key bytes
  (\<open>rest\<close>) has been read.
\<close>

theorem key_overflow_breaks_loop:
  assumes "i < cap" "10000 < n" "n < 2 ^ 64"
  shows "entry_loop i cap (out, pack_le 8 n @ rest) =
     (Inr LoopBroken, (out @ key_warning n @ corrupted_key_line i, rest))"
  by (rule entry_loop_break [OF assms(1) body_key_overflow [OF assms(2,3)]])

theorem key_overflow_breaks_loop_witness:
  "(0::nat) < 1 \<and> (10000::nat) < 10001 \<and> (10001::nat) < 2 ^ 64 \<and>
   read_gguf_metadata (pack_header 1179993415 3 0 1 @ pack_le 8 10001 @ ascii ''payload'') =
     (Inr LoopBroken,
      (header_text 1179993415 3 0 1 @ key_warning 10001 @ corrupted_key_line 0,
       ascii ''payload''))"
  using key_overflow_breaks_loop
          [of 0 1 10001 "header_text 1179993415 3 0 1" "ascii ''payload''"]
  by (simp add: read_gguf_metadata_header)

text \<open>
  C9. The sentinel that \<open>read_string\<close> returns for an oversized key is the string
  "<CORRUPTED>" itself. A key of a length within the limit whose bytes decode to exactly
  that text is therefore taken for a corrupted key: the loop prints the
  "Corrupted key, stopping" line and is left by \<open>break\<close>, although the key was read in
  full and the file stands at the type code that follows it.
\<close>

theorem sentinel_key_breaks_loop:
  assumes "i < cap" "length kb \<le> 10000" "bytes_decode kb = lit ''<CORRUPTED>''"
  shows "entry_loop i cap (out, pack_str kb @ rest) =
     (Inr LoopBroken, (out @ corrupted_key_line i, rest))"
  by (rule entry_loop_break [OF assms(1) body_key_sentinel [OF assms(2,3)]])

theorem sentinel_key_breaks_loop_witness:
  "(0::nat) < 1 \<and> length (ascii ''<CORRUPTED>'') = 11 \<and> length (ascii ''<CORRUPTED>'') \<le> 10000
   \<and> bytes_decode (ascii ''<CORRUPTED>'') = lit ''<CORRUPTED>'' \<and>
   read_gguf_metadata (pack_header 1179993415 3 0 1 @ pack_str (ascii ''<CORRUPTED>'')
                       @ pack_le 4 8 @ pack_str (ascii ''v'')) =
     (Inr LoopBroken,
      (header_text 1179993415 3 0 1 @ corrupted_key_line 0, pack_le 4 8 @ pack_str (ascii ''v'')))"
  using sentinel_key_breaks_loop
          [of 0 1 "ascii ''<CORRUPTED>''" "header_text 1179993415 3 0 1"
              "pack_le 4 8 @ pack_str (ascii ''v'')"]
  by (simp add: lit_sentinel read_gguf_metadata_header)

section \<open>STRING values\<close>

text \<open>
  C5. An entry of type 8 whose declared value length \<open>n\<close> exceeds 10000: after the entry
  line the loop prints the warning about the value length and is left by \<open>break\<close>. The
  warning is the last text of the report, and the file is left right behind the length
  field, the declared payload (\<open>rest\<close>) unread.
\<close>

theorem string_value_overflow_breaks_loop:
  assumes "i < cap" "length kb \<le> 10000" "bytes_decode kb \<noteq> lit ''<CORRUPTED>''"
    "10000 < n" "n < 2 ^ 64"
  shows "entry_loop i cap (out, pack_str kb @ pack_le 4 8 @ pack_le 8 n @ rest) =
     (Inr LoopBroken, (out @ entry_head i (bytes_decode kb) 8 @ value_warning n, rest))"
  by (rule entry_loop_break [OF assms(1) body_string_overflow [OF assms(2-5)]])

theorem string_value_overflow_breaks_loop_witness:
  "(0::nat) < 1 \<and> length (ascii ''name'') \<le> 10000
   \<and> bytes_decode (ascii ''name'') \<noteq> lit ''<CORRUPTED>''
   \<and> (10000::nat) < 10001 \<and> (10001::nat) < 2 ^ 64 \<and>
   read_gguf_metadata (pack_header 1179993415 3 0 1 @ pack_str (ascii ''name'') @ pack_le 4 8
                       @ pack_le 8 10001 @ ascii ''payload'') =
     (Inr LoopBroken,
      (header_text 1179993415 3 0 1 @ entry_line 0 (lit ''name'') 8 @ [10] @ value_warning 10001,
       ascii ''payload''))"
  using string_value_overflow_breaks_loop
          [of 0 1 "ascii ''name''" 10001 "header_text 1179993415 3 0 1" "ascii ''payload''"]
  by (simp add: lit_name name_not_sentinel name_not_watch read_gguf_metadata_header entry_head_def)

text \<open>
  C8. An entry whose key is the watched key "tokenizer.ggml.pre", of type 8, with the
  value "llama3": the report gains the standard entry line
  \<open>NN. Key: 'tokenizer.ggml.pre', Type: 8\<close>, which carries the marker
  \<open>*** FOUND tokenizer.ggml.pre with type 8 ***\<close> at its end (the source prints the entry
  text without a line end and the marker after it), and the line \<open>Value: 'llama3'\<close>; the
  loop goes on with the next entry. For any value within the length limit the second
  line shows the decoded text, or \<open>Value (hex):\<close> and the bytes in hexadecimal when they
  are not valid UTF-8. The text is written out character by character, \<open>fmt_2d (i + 1)\<close>
  being the entry number in two columns; in the example that follows the theorem the
  whole report of a file with this one entry is written out.
\<close>

theorem watched_string_entry:
  assumes "i < cap" "length kb \<le> 10000"
    "bytes_decode kb = map of_char ''tokenizer.ggml.pre''" "length v \<le> 10000"
  shows "entry_loop i cap (out, pack_str kb @ pack_le 4 8 @ pack_str (ascii ''llama3'') @ rest) =
           entry_loop (i + 1) cap
             (out @ map of_char ''  '' @ fmt_2d (i + 1)
                  @ map of_char ''. Key: 'tokenizer.ggml.pre', Type: 8''
                  @ map of_char '' *** FOUND tokenizer.ggml.pre with type 8 ***'' @ [10]
                  @ map of_char ''      Value: 'llama3'' @ [39, 10], rest)
       \<and> entry_loop i cap (out, pack_str kb @ pack_le 4 8 @ pack_str v @ rest) =
           entry_loop (i + 1) cap
             (out @ map of_char ''  '' @ fmt_2d (i + 1)
                  @ map of_char ''. Key: 'tokenizer.ggml.pre', Type: 8''
                  @ map of_char '' *** FOUND tokenizer.ggml.pre with type 8 ***'' @ [10]
                  @ (case decode_strict (map unat v) of
                       Some s \<Rightarrow> map of_char ''      Value: '' @ [39] @ s @ [39]
                     | None \<Rightarrow> map of_char ''      Value (hex): '' @ bytes_hex v) @ [10], rest)"
proof -
  have w: "bytes_decode kb = watch_key"
    using assms(3) by (simp add: watch_key_text)
  have k: "bytes_decode kb \<noteq> lit ''<CORRUPTED>''"
    using w watch_not_sentinel by simp
  have l: "length (ascii ''llama3'') \<le> 10000"
    by simp
  have h: "entry_head i watch_key 8 =
      map of_char ''  '' @ fmt_2d (i + 1)
      @ map of_char ''. Key: 'tokenizer.ggml.pre', Type: 8''
      @ map of_char '' *** FOUND tokenizer.ggml.pre with type 8 ***'' @ [10]"
    by (simp add: entry_head_def entry_line_def found_marker_def quoted_def str_nat_8
        watch_key_text lit_def)
  have d: "value_detail (ascii ''llama3'') = map of_char ''      Value: 'llama3'' @ [39, 10]"
    by (simp add: value_detail_llama3 quoted_def lit_def)
  have "entry_loop i cap (out, pack_str kb @ pack_le 4 8 @ pack_str (ascii ''llama3'') @ rest) =
      entry_loop (i + 1) cap (out @ entry_head i (bytes_decode kb) 8
           @ (if bytes_decode kb = watch_key then value_detail (ascii ''llama3'') else []), rest)"
    by (rule entry_loop_next [OF assms(1) body_string_ok [OF assms(2) k l]])
  moreover
  have "entry_loop i cap (out, pack_str kb @ pack_le 4 8 @ pack_str v @ rest) =
      entry_loop (i + 1) cap (out @ entry_head i (bytes_decode kb) 8
           @ (if bytes_decode kb = watch_key then value_detail v else []), rest)"
    by (rule entry_loop_next [OF assms(1) body_string_ok [OF assms(2) k assms(4)]])
  ultimately show ?thesis
    by (simp add: w h d) (simp add: value_detail_def quoted_def lit_def split: option.split)
qed

theorem watched_string_entry_witness:
  "(0::nat) < 1 \<and> length (ascii ''tokenizer.ggml.pre'') \<le> 10000
   \<and> bytes_decode (ascii ''tokenizer.ggml.pre'') = map of_char ''tokenizer.ggml.pre''
   \<and> length [255 :: byte] \<le> 10000
   \<and> read_gguf_metadata (pack_header 1179993927 3 0 1 @ pack_str (ascii ''tokenizer.ggml.pre'')
                         @ pack_le 4 8 @ pack_str (ascii ''llama3'')) =
       (Inr Completed,
        (map of_char ''Magic: 0x46554747, Version: 3'' @ [10]
         @ map of_char ''Tensor count: 0, KV count: 1'' @ [10]
         @ [10] @ map of_char ''Metadata keys:'' @ [10]
         @ map of_char ''   1. Key: 'tokenizer.ggml.pre', Type: 8''
         @ map of_char '' *** FOUND tokenizer.ggml.pre with type 8 ***'' @ [10]
         @ map of_char ''      Value: 'llama3'' @ [39, 10], []))
   \<and> read_gguf_metadata (pack_header 1179993927 3 0 1 @ pack_str (ascii ''tokenizer.ggml.pre'')
                         @ pack_le 4 8 @ pack_str [255]) =
       (Inr Completed,
        (map of_char ''Magic: 0x46554747, Version: 3'' @ [10]
         @ map of_char ''Tensor count: 0, KV count: 1'' @ [10]
         @ [10] @ map of_char ''Metadata keys:'' @ [10]
         @ map of_char ''   1. Key: 'tokenizer.ggml.pre', Type: 8''
         @ map of_char '' *** FOUND tokenizer.ggml.pre with type 8 ***'' @ [10]
         @ map of_char ''      Value (hex): ff'' @ [10], []))"
proof -
  have h: "bytes_hex [255] = map of_char ''ff''"
    by (simp add: bytes_hex_def hex_digit_def)
  have w: "bytes_decode (ascii ''tokenizer.ggml.pre'') = map of_char ''tokenizer.ggml.pre''"
    using lit_watch by (simp add: watch_key_text)
  show ?thesis
    using watched_string_entry
            [of 0 1 "ascii ''tokenizer.ggml.pre''" "[255]" "header_text 1179993927 3 0 1" "[]"]
    by (simp add: w h read_gguf_metadata_header entry_loop_done header_text_example fmt_2d_1)
qed

section \<open>ARRAY values and the ways out of the loop\<close>

text \<open>
  C1. An entry of type 9 with element type 8 and a declared length \<open>n\<close> within the limit,
  whose elements \<open>es\<close> are in order until one declares a length \<open>big\<close> above 10000: the
  inner loop prints its warning and executes \<open>return\<close>, so \<open>read_gguf_metadata\<close> is left
  at once (outcome \<open>Returned\<close>). The elements after the oversized one and everything
  behind them (\<open>rest\<close>) stay unread and nothing more is printed. The other three length
  checks (key, STRING value, array length) leave the loop by \<open>break\<close> (outcome
  \<open>LoopBroken\<close>). In both cases the report printed so far is kept. As the loop is the last
  statement of the function, the two ways out differ in nothing that is printed.
\<close>

theorem nested_string_overflow_returns:
  assumes "i < cap" "length kb \<le> 10000" "bytes_decode kb \<noteq> lit ''<CORRUPTED>''"
    "10000 < big" "big < 2 ^ 64"
    "n \<le> 100000" "\<forall>e \<in> set es. length e \<le> 10000" "length es < n"
    "100000 < m" "m < 2 ^ 64" "t < 2 ^ 32"
  shows "entry_loop i cap (out, pack_str kb @ pack_le 4 9 @ pack_le 4 8 @ pack_le 8 n
                                @ concat (map pack_str es) @ pack_le 8 big @ rest) =
           (Inr Returned,
            (out @ entry_head i (bytes_decode kb) 9 @ array_detail (bytes_decode kb) 8 n
                 @ element_warning, rest))
       \<and> entry_loop i cap (out, pack_le 8 big @ rest) =
           (Inr LoopBroken, (out @ key_warning big @ corrupted_key_line i, rest))
       \<and> entry_loop i cap (out, pack_str kb @ pack_le 4 8 @ pack_le 8 big @ rest) =
           (Inr LoopBroken, (out @ entry_head i (bytes_decode kb) 8 @ value_warning big, rest))
       \<and> entry_loop i cap (out, pack_str kb @ pack_le 4 9 @ pack_le 4 t @ pack_le 8 m @ rest) =
           (Inr LoopBroken,
            (out @ entry_head i (bytes_decode kb) 9 @ array_detail (bytes_decode kb) t m
                 @ array_warning m, rest))"
proof (intro conjI)
  show "entry_loop i cap (out, pack_str kb @ pack_le 4 9 @ pack_le 4 8 @ pack_le 8 n
                                @ concat (map pack_str es) @ pack_le 8 big @ rest) =
           (Inr Returned,
            (out @ entry_head i (bytes_decode kb) 9 @ array_detail (bytes_decode kb) 8 n
                 @ element_warning, rest))"
    by (rule entry_loop_return
          [OF assms(1) body_array_strings_overflow [OF assms(2,3,6,7,8,4,5)]])
  show "entry_loop i cap (out, pack_le 8 big @ rest) =
           (Inr LoopBroken, (out @ key_warning big @ corrupted_key_line i, rest))"
    by (rule entry_loop_break [OF assms(1) body_key_overflow [OF assms(4,5)]])
  show "entry_loop i cap (out, pack_str kb @ pack_le 4 8 @ pack_le 8 big @ rest) =
           (Inr LoopBroken, (out @ entry_head i (bytes_decode kb) 8 @ value_warning big, rest))"
    by (rule entry_loop_break [OF assms(1) body_string_overflow [OF assms(2,3,4,5)]])
  show "entry_loop i cap (out, pack_str kb @ pack_le 4 9 @ pack_le 4 t @ pack_le 8 m @ rest) =
           (Inr LoopBroken,
            (out @ entry_head i (bytes_decode kb) 9 @ array_detail (bytes_decode kb) t m
                 @ array_warning m, rest))"
    by (rule entry_loop_break [OF assms(1) body_array_len_overflow [OF assms(2,3,11,9,10)]])
qed

theorem nested_string_overflow_returns_witness:
  "(0::nat) < 1 \<and> length (ascii ''k'') \<le> 10000 \<and> bytes_decode (ascii ''k'') \<noteq> lit ''<CORRUPTED>''
   \<and> (10000::nat) < 10001 \<and> (10001::nat) < 2 ^ 64 \<and> (3::nat) \<le> 100000
   \<and> length (ascii ''a'') \<le> 10000 \<and> length [ascii ''a''] < 3
   \<and> (100000::nat) < 100001 \<and> (100001::nat) < 2 ^ 64 \<and> (4::nat) < 2 ^ 32
   \<and> read_gguf_metadata (pack_header 1179993415 3 0 1 @ pack_str (ascii ''k'') @ pack_le 4 9
          @ pack_le 4 8 @ pack_le 8 3 @ concat (map pack_str [ascii ''a'']) @ pack_le 8 10001
          @ ascii ''rest'') =
       (Inr Returned,
        (header_text 1179993415 3 0 1 @ entry_line 0 (lit ''k'') 9 @ [10] @ element_warning,
         ascii ''rest''))
   \<and> read_gguf_metadata (pack_header 1179993415 3 0 1 @ pack_le 8 10001 @ ascii ''rest'') =
       (Inr LoopBroken,
        (header_text 1179993415 3 0 1 @ key_warning 10001 @ corrupted_key_line 0, ascii ''rest''))
   \<and> read_gguf_metadata (pack_header 1179993415 3 0 1 @ pack_str (ascii ''k'') @ pack_le 4 8
          @ pack_le 8 10001 @ ascii ''rest'') =
       (Inr LoopBroken,
        (header_text 1179993415 3 0 1 @ entry_line 0 (lit ''k'') 8 @ [10] @ value_warning 10001,
         ascii ''rest''))
   \<and> read_gguf_metadata (pack_header 1179993415 3 0 1 @ pack_str (ascii ''k'') @ pack_le 4 9
          @ pack_le 4 4 @ pack_le 8 100001 @ ascii ''rest'') =
       (Inr LoopBroken,
        (header_text 1179993415 3 0 1 @ entry_line 0 (lit ''k'') 9 @ [10] @ array_warning 100001,
         ascii ''rest''))"
  using nested_string_overflow_returns
          [where i = 0 and cap = 1 and kb = "ascii ''k''" and big = 10001 and n = 3
             and es = "[ascii ''a'']" and m = 100001 and t = 4
             and out = "header_text 1179993415 3 0 1" and rest = "ascii ''rest''"]
  by (simp add: lit_k k_not_sentinel k_not_watch array_detail_def entry_head_def
      read_gguf_metadata_header)

section \<open>Type codes and the table of widths\<close>

text \<open>
  C2, as stated, fails: the table \<open>type_sizes\<close> of the source has entries for 8 and 9, and
  an array whose element type is 9 is looked up in it. In the file below, one entry "k" of
  type 9 with element type 9 and length 1 is followed by 8 bytes: they are consumed as the
  array elements (the file is at its end afterwards), not skipped as zero bytes.
\<close>

theorem array_of_arrays_counterexample:
  "type_sizes 9 = Some 8 \<and>
   read_gguf_metadata (pack_header 1179993415 3 0 1 @ pack_str (ascii ''k'') @ pack_le 4 9
                       @ pack_le 4 9 @ pack_le 8 1 @ ascii ''ABCDEFGH'') =
     (Inr Completed, (header_text 1179993415 3 0 1 @ entry_line 0 (lit ''k'') 9 @ [10], []))"
proof -
  have b: "entry_body 0 (header_text 1179993415 3 0 1,
             pack_str (ascii ''k'') @ pack_le 4 9 @ pack_le 4 9 @ pack_le 8 1
             @ ascii ''ABCDEFGH'' @ []) =
      (Inr Next, (header_text 1179993415 3 0 1 @ entry_head 0 (bytes_decode (ascii ''k'')) 9
                  @ array_detail (bytes_decode (ascii ''k'')) 9 1, []))"
    by (rule body_array_fixed [where w = 8])
       (simp_all add: lit_k k_not_sentinel type_sizes_9)
  have "entry_loop 0 1 (header_text 1179993415 3 0 1,
             pack_str (ascii ''k'') @ pack_le 4 9 @ pack_le 4 9 @ pack_le 8 1
             @ ascii ''ABCDEFGH'' @ []) =
      entry_loop (0 + 1) 1 (header_text 1179993415 3 0 1 @ entry_head 0 (bytes_decode (ascii ''k'')) 9
                  @ array_detail (bytes_decode (ascii ''k'')) 9 1, [])"
    by (rule entry_loop_next [OF _ b]) simp
  then show ?thesis
    by (simp add: read_gguf_metadata_header entry_loop_done lit_k k_not_watch entry_head_def
        array_detail_def type_sizes_9)
qed

text \<open>
  C2, amended. At the top level, type code 8 is handled as a STRING (a length and that
  many bytes are read, not the fixed width) and type code 9 as an ARRAY. As the element
  type of an array, 8 means length-prefixed strings; 9 is looked up in the table and
  found with width 8, so \<open>n * 8\<close> bytes are skipped.
\<close>

theorem type_code_dispatch:
  assumes "i < cap" "length kb \<le> 10000" "bytes_decode kb \<noteq> lit ''<CORRUPTED>''"
    "length v \<le> 10000" "length es \<le> 100000" "\<forall>e \<in> set es. length e \<le> 10000"
    "n \<le> 100000" "length p = n * 8"
  shows "entry_loop i cap (out, pack_str kb @ pack_le 4 8 @ pack_str v @ rest) =
           entry_loop (i + 1) cap
             (out @ entry_head i (bytes_decode kb) 8
                  @ (if bytes_decode kb = watch_key then value_detail v else []), rest)
       \<and> entry_loop i cap (out, pack_str kb @ pack_le 4 9 @ pack_le 4 8 @ pack_le 8 (length es)
                                  @ concat (map pack_str es) @ rest) =
           entry_loop (i + 1) cap
             (out @ entry_head i (bytes_decode kb) 9
                  @ array_detail (bytes_decode kb) 8 (length es), rest)
       \<and> entry_loop i cap (out, pack_str kb @ pack_le 4 9 @ pack_le 4 9 @ pack_le 8 n
                                  @ p @ rest) =
           entry_loop (i + 1) cap
             (out @ entry_head i (bytes_decode kb) 9 @ array_detail (bytes_decode kb) 9 n, rest)"
proof (intro conjI)
  show "entry_loop i cap (out, pack_str kb @ pack_le 4 8 @ pack_str v @ rest) =
           entry_loop (i + 1) cap
             (out @ entry_head i (bytes_decode kb) 8
                  @ (if bytes_decode kb = watch_key then value_detail v else []), rest)"
    by (rule entry_loop_next [OF assms(1) body_string_ok [OF assms(2,3,4)]])
  show "entry_loop i cap (out, pack_str kb @ pack_le 4 9 @ pack_le 4 8 @ pack_le 8 (length es)
                                  @ concat (map pack_str es) @ rest) =
           entry_loop (i + 1) cap
             (out @ entry_head i (bytes_decode kb) 9
                  @ array_detail (bytes_decode kb) 8 (length es), rest)"
    by (rule entry_loop_next [OF assms(1) body_array_strings_ok [OF assms(2,3,5,6)]])
  have "(9::nat) \<noteq> 8"
    by simp
  then show "entry_loop i cap (out, pack_str kb @ pack_le 4 9 @ pack_le 4 9 @ pack_le 8 n
                                  @ p @ rest) =
           entry_loop (i + 1) cap
             (out @ entry_head i (bytes_decode kb) 9 @ array_detail (bytes_decode kb) 9 n, rest)"
    by (rule entry_loop_next
          [OF assms(1) body_array_fixed [OF assms(2,3) _ type_sizes_9 assms(7,8)]])
qed

theorem type_code_dispatch_witness:
  "(0::nat) < 50 \<and> length (ascii ''k'') \<le> 10000 \<and> bytes_decode (ascii ''k'') \<noteq> lit ''<CORRUPTED>''
   \<and> length (ascii ''hello'') \<le> 10000 \<and> length [ascii ''a'', ascii ''b''] \<le> 100000
   \<and> length (ascii ''a'') \<le> 10000 \<and> length (ascii ''b'') \<le> 10000
   \<and> (1::nat) \<le> 100000 \<and> length (ascii ''ABCDEFGH'') = 1 * 8
   \<and> entry_loop 0 50 ([], pack_str (ascii ''k'') @ pack_le 4 8 @ pack_str (ascii ''hello'')
                           @ ascii ''rest'') =
       entry_loop 1 50 (entry_head 0 (lit ''k'') 8, ascii ''rest'')
   \<and> entry_loop 0 50 ([], pack_str (ascii ''k'') @ pack_le 4 9 @ pack_le 4 8
                           @ pack_le 8 (length [ascii ''a'', ascii ''b''])
                           @ concat (map pack_str [ascii ''a'', ascii ''b'']) @ ascii ''rest'') =
       entry_loop 1 50 (entry_head 0 (lit ''k'') 9, ascii ''rest'')
   \<and> entry_loop 0 50 ([], pack_str (ascii ''k'') @ pack_le 4 9 @ pack_le 4 9 @ pack_le 8 1
                           @ ascii ''ABCDEFGH'' @ ascii ''rest'') =
       entry_loop 1 50 (entry_head 0 (lit ''k'') 9, ascii ''rest'')"
  using type_code_dispatch
          [where i = 0 and cap = 50 and kb = "ascii ''k''" and v = "ascii ''hello''"
             and es = "[ascii ''a'', ascii ''b'']" and n = 1 and p = "ascii ''ABCDEFGH''"
             and out = "[]" and rest = "ascii ''rest''"]
  by (simp add: lit_k k_not_sentinel k_not_watch array_detail_def)

text \<open>
  C3, as stated, fails in its last part: for a type code outside the table nothing is
  printed besides the standard entry line. The file below has one entry "k" of type 11:
  the report is the header followed by the entry line alone, no value byte is skipped
  and the loop completes.
\<close>

theorem unknown_type_counterexample:
  "read_gguf_metadata (pack_header 1179993415 3 0 1 @ pack_str (ascii ''k'') @ pack_le 4 11
                       @ ascii ''XY'') =
     (Inr Completed,
      (header_text 1179993415 3 0 1 @ entry_line 0 (lit ''k'') 11 @ [10], ascii ''XY''))"
proof -
  have b: "entry_body 0 (header_text 1179993415 3 0 1,
             pack_str (ascii ''k'') @ pack_le 4 11 @ ascii ''XY'') =
      (Inr Next, (header_text 1179993415 3 0 1 @ entry_head 0 (bytes_decode (ascii ''k'')) 11,
                  ascii ''XY''))"
    by (rule body_unknown)
       (simp_all add: lit_k k_not_sentinel type_sizes_None)
  have "entry_loop 0 1 (header_text 1179993415 3 0 1,
             pack_str (ascii ''k'') @ pack_le 4 11 @ ascii ''XY'') =
      entry_loop (0 + 1) 1 (header_text 1179993415 3 0 1
                  @ entry_head 0 (bytes_decode (ascii ''k'')) 11, ascii ''XY'')"
    by (rule entry_loop_next [OF _ b]) simp
  then show ?thesis
    by (simp add: read_gguf_metadata_header entry_loop_done lit_k k_not_watch entry_head_def)
qed

text \<open>
  C3, amended. For a type code \<open>t\<close> above 10, as the type of an entry or as the element
  type of an array within the length limit, the iteration reads no value byte, raises
  nothing and goes on to the next entry; what it prints is the entry line (and, for the
  watched key, the array detail line), with no note about the unknown code.
\<close>

theorem unknown_type_silent_skip:
  assumes "i < cap" "length kb \<le> 10000" "bytes_decode kb \<noteq> lit ''<CORRUPTED>''"
    "10 < t" "t < 2 ^ 32" "n \<le> 100000"
  shows "entry_loop i cap (out, pack_str kb @ pack_le 4 t @ rest) =
           entry_loop (i + 1) cap (out @ entry_head i (bytes_decode kb) t, rest)
       \<and> entry_loop i cap (out, pack_str kb @ pack_le 4 9 @ pack_le 4 t @ pack_le 8 n @ rest) =
           entry_loop (i + 1) cap
             (out @ entry_head i (bytes_decode kb) 9 @ array_detail (bytes_decode kb) t n, rest)"
proof (intro conjI)
  have u: "type_sizes t = None"
    using assms(4) by (simp add: type_sizes_None)
  show "entry_loop i cap (out, pack_str kb @ pack_le 4 t @ rest) =
           entry_loop (i + 1) cap (out @ entry_head i (bytes_decode kb) t, rest)"
    by (rule entry_loop_next [OF assms(1) body_unknown [OF assms(2,3) u assms(5)]])
  show "entry_loop i cap (out, pack_str kb @ pack_le 4 9 @ pack_le 4 t @ pack_le 8 n @ rest) =
           entry_loop (i + 1) cap
             (out @ entry_head i (bytes_decode kb) 9 @ array_detail (bytes_decode kb) t n, rest)"
    by (rule entry_loop_next [OF assms(1) body_array_unknown [OF assms(2,3) u assms(5,6)]])
qed

theorem unknown_type_silent_skip_witness:
  "(0::nat) < 50 \<and> length (ascii ''k'') \<le> 10000 \<and> bytes_decode (ascii ''k'') \<noteq> lit ''<CORRUPTED>''
   \<and> (10::nat) < 11 \<and> (11::nat) < 2 ^ 32 \<and> (5::nat) \<le> 100000
   \<and> entry_loop 0 50 ([], pack_str (ascii ''k'') @ pack_le 4 11 @ ascii ''rest'') =
       entry_loop 1 50 (entry_line 0 (lit ''k'') 11 @ [10], ascii ''rest'')
   \<and> entry_loop 0 50 ([], pack_str (ascii ''k'') @ pack_le 4 9 @ pack_le 4 11 @ pack_le 8 5
                           @ ascii ''rest'') =
       entry_loop 1 50 (entry_line 0 (lit ''k'') 9 @ [10], ascii ''rest'')"
  using unknown_type_silent_skip
          [where i = 0 and cap = 50 and kb = "ascii ''k''" and t = 11 and n = 5
             and out = "[]" and rest = "ascii ''rest''"]
  by (simp add: lit_k k_not_sentinel k_not_watch array_detail_def entry_head_def)

section \<open>The bound of 50 entries\<close>

lemma body_wf_entry:
  assumes "wf_entry e" "bytes_decode (fst e) \<noteq> lit ''<CORRUPTED>''"
  shows "entry_body i (out, pack_entry e @ rest) = (Inr Next, (out @ entry_report i e, rest))"
proof -
  obtain kb v where e: "e = (kb, v)"
    by (cases e)
  have kl: "length kb \<le> 10000" and wv: "wf_value v" and ks: "bytes_decode kb \<noteq> lit ''<CORRUPTED>''"
    using assms by (simp_all add: e wf_entry_def)
  show ?thesis
  proof (cases v)
    case (Scalar t p)
    then have "t \<noteq> 8" "t \<noteq> 9" "type_sizes t = Some (length p)"
      using wv by simp_all
    from body_scalar [OF kl ks this refl, of i out rest]
    show ?thesis
      by (simp add: e Scalar pack_entry_def entry_report_def)
  next
    case (Str s)
    then have "length s \<le> 10000"
      using wv by simp
    from body_string_ok [OF kl ks this, of i out rest]
    show ?thesis
      by (simp add: e Str pack_entry_def entry_report_def)
  next
    case (StrArray es)
    then have "length es \<le> 100000" "\<forall>e \<in> set es. length e \<le> 10000"
      using wv by simp_all
    from body_array_strings_ok [OF kl ks this, of i out rest]
    show ?thesis
      by (simp add: e StrArray pack_entry_def entry_report_def)
  next
    case (FixedArray t n p)
    then obtain w where "t \<noteq> 8" "type_sizes t = Some w" "n \<le> 100000" "length p = n * w"
      using wv by (auto split: option.splits)
    from body_array_fixed [OF kl ks this, of i out rest]
    show ?thesis
      by (simp add: e FixedArray pack_entry_def entry_report_def)
  qed
qed

lemma entry_loop_wf_entries:
  "\<forall>e \<in> set es. wf_entry e \<and> bytes_decode (fst e) \<noteq> lit ''<CORRUPTED>'' \<Longrightarrow>
   i + length es \<le> n \<Longrightarrow>
   entry_loop i n (out, concat (map pack_entry es) @ rest) =
     entry_loop (i + length es) n (out @ entries_report i es, rest)"
proof (induction es arbitrary: i out)
  case Nil
  then show ?case by simp
next
  case (Cons e es)
  have "i < n"
    using Cons.prems(2) by simp
  moreover have "entry_body i (out, pack_entry e @ concat (map pack_entry es) @ rest) =
      (Inr Next, (out @ entry_report i e, concat (map pack_entry es) @ rest))"
    using Cons.prems(1) by (simp add: body_wf_entry)
  ultimately have "entry_loop i n (out, pack_entry e @ concat (map pack_entry es) @ rest) =
      entry_loop (i + 1) n (out @ entry_report i e, concat (map pack_entry es) @ rest)"
    by (rule entry_loop_next)
  also have "\<dots> = entry_loop (i + 1 + length es) n
      ((out @ entry_report i e) @ entries_report (i + 1) es, rest)"
    using Cons.prems by (intro Cons.IH) simp_all
  finally show ?case
    by simp
qed

text \<open>
  C6, as stated, fails on a well-formed file whose first key is the text "<CORRUPTED>":
  the file below declares 100 entries and holds 100 well-formed ones, yet the loop stops
  in its first iteration with the "Corrupted key, stopping" line and no entry line at all.
\<close>

theorem sentinel_key_cap_counterexample:
  "wf_entry (ascii ''<CORRUPTED>'', Str (ascii ''v'')) \<and> wf_entry (ascii ''k'', Str (ascii ''v''))
   \<and> read_gguf_metadata
         (pack_header 1179993415 3 0 100
          @ concat (map pack_entry ((ascii ''<CORRUPTED>'', Str (ascii ''v''))
                                    # replicate 99 (ascii ''k'', Str (ascii ''v''))))) =
       (Inr LoopBroken,
        (header_text 1179993415 3 0 100 @ corrupted_key_line 0,
         pack_value (Str (ascii ''v''))
         @ concat (map pack_entry (replicate 99 (ascii ''k'', Str (ascii ''v''))))))"
proof -
  have "entry_loop 0 50 (header_text 1179993415 3 0 100,
          pack_str (ascii ''<CORRUPTED>'') @ pack_value (Str (ascii ''v''))
          @ concat (map pack_entry (replicate 99 (ascii ''k'', Str (ascii ''v''))))) =
        (Inr LoopBroken,
         (header_text 1179993415 3 0 100 @ corrupted_key_line 0,
          pack_value (Str (ascii ''v''))
          @ concat (map pack_entry (replicate 99 (ascii ''k'', Str (ascii ''v''))))))"
    by (rule entry_loop_break [OF _ body_key_sentinel]) (simp_all add: lit_sentinel)
  then show ?thesis
    by (simp add: read_gguf_metadata_header pack_entry_def wf_entry_def)
qed

text \<open>
  C6, amended. The loop runs over \<open>range(min(kv_count, 50))\<close>. When the file holds, behind
  the header, \<open>min(kv_count, 50)\<close> well-formed entries none of whose keys decodes to
  "<CORRUPTED>", the report is the header followed by the report of each of these
  entries, one entry line each, in order; the loop runs to its bound (\<open>Completed\<close>)
  without any warning, and what follows these entries (\<open>rest\<close>) is not read. With
  \<open>kv_count = 100\<close> these are exactly 50 entries, and the other 50 stay unread in \<open>rest\<close>.
\<close>

theorem first_entries_reported:
  assumes "magic < 2 ^ 32" "version < 2 ^ 32" "tensor_count < 2 ^ 64" "kv_count < 2 ^ 64"
    "length es = min kv_count 50"
    "\<forall>e \<in> set es. wf_entry e \<and> bytes_decode (fst e) \<noteq> lit ''<CORRUPTED>''"
  shows "read_gguf_metadata (pack_header magic version tensor_count kv_count
                             @ concat (map pack_entry es) @ rest) =
     (Inr Completed,
      (header_text magic version tensor_count kv_count @ entries_report 0 es, rest))"
proof -
  have "entry_loop 0 (min kv_count 50)
          (header_text magic version tensor_count kv_count, concat (map pack_entry es) @ rest) =
        entry_loop (0 + length es) (min kv_count 50)
          (header_text magic version tensor_count kv_count @ entries_report 0 es, rest)"
    using assms(6) by (rule entry_loop_wf_entries) (simp add: assms(5))
  then show ?thesis
    using assms(1-5) by (simp add: read_gguf_metadata_header entry_loop_done)
qed

theorem first_entries_reported_witness:
  "(1179993415::nat) < 2 ^ 32 \<and> (3::nat) < 2 ^ 32 \<and> (0::nat) < 2 ^ 64 \<and> (100::nat) < 2 ^ 64
   \<and> length (replicate 50 (ascii ''k'', Str (ascii ''v''))) = min 100 50
   \<and> wf_entry (ascii ''k'', Str (ascii ''v''))
   \<and> bytes_decode (ascii ''k'') \<noteq> lit ''<CORRUPTED>''
   \<and> read_gguf_metadata
         (pack_header 1179993415 3 0 100
          @ concat (map pack_entry (replicate 50 (ascii ''k'', Str (ascii ''v''))))
          @ concat (map pack_entry (replicate 50 (ascii ''k'', Str (ascii ''v''))))) =
       (Inr Completed,
        (header_text 1179993415 3 0 100
         @ entries_report 0 (replicate 50 (ascii ''k'', Str (ascii ''v''))),
         concat (map pack_entry (replicate 50 (ascii ''k'', Str (ascii ''v''))))))"
  using first_entries_reported
          [where magic = 1179993415 and version = 3 and tensor_count = 0 and kv_count = 100
             and es = "replicate 50 (ascii ''k'', Str (ascii ''v''))"
             and rest = "concat (map pack_entry (replicate 50 (ascii ''k'', Str (ascii ''v''))))"]
  by (simp add: wf_entry_def lit_k k_not_sentinel)

section \<open>The payload of a STRING value is not inspected\<close>

lemma frameD:
  "frame m \<Longrightarrow> m (out, xs) = (r, (out', xs')) \<Longrightarrow> xs' \<noteq> [] \<Longrightarrow>
   \<exists>c. xs = c @ xs' \<and> (\<forall>ys. m (out, c @ ys) = (r, (out', ys)))"
  unfolding frame_def by blast

lemma frame_ret: "frame (ret v)"
  by (simp add: frame_def)

lemma frame_raise: "frame (raise e)"
  by (simp add: frame_def raise_def)

lemma frame_print_noend: "frame (print_noend t)"
  by (simp add: frame_def print_noend_def)

lemma frame_print: "frame (print t)"
  by (simp add: print_def frame_print_noend)

lemma frame_unpack: "frame (unpack w d)"
  by (simp add: unpack_def frame_ret frame_raise)

lemma frame_f_read: "frame (f_read n)"
  unfolding frame_def
proof (intro allI impI)
  fix out xs r out' and xs' :: "byte list"
  assume run: "f_read n (out, xs) = (r, (out', xs'))" and ne: "xs' \<noteq> []"
  from run have r: "r = Inr (take n xs)" and o: "out' = out" and x: "xs' = drop n xs"
    by (simp_all add: f_read_def)
  from ne x have n: "n < length xs"
    by simp
  have "xs = take n xs @ xs'"
    by (simp add: x)
  moreover have "\<forall>ys. f_read n (out, take n xs @ ys) = (r, (out', ys))"
    using n by (simp add: f_read_def r o)
  ultimately show "\<exists>c. xs = c @ xs' \<and> (\<forall>ys. f_read n (out, c @ ys) = (r, (out', ys)))"
    by blast
qed

lemma frame_bind:
  assumes "frame m" "\<And>v. frame (f v)"
  shows "frame (bind m f)"
  unfolding frame_def
proof (intro allI impI)
  fix out xs r out' and xs' :: "byte list"
  assume run: "bind m f (out, xs) = (r, (out', xs'))" and ne: "xs' \<noteq> []"
  obtain r1 o1 xs1 where m: "m (out, xs) = (r1, (o1, xs1))"
    by (metis prod_cases3)
  show "\<exists>c. xs = c @ xs' \<and> (\<forall>ys. bind m f (out, c @ ys) = (r, (out', ys)))"
  proof (cases r1)
    case (Inl e)
    then have r: "r = Inl e" and m': "m (out, xs) = (Inl e, (out', xs'))"
      using run m by (simp_all add: bind_def)
    from frameD [OF assms(1) m' ne]
    obtain c where c: "xs = c @ xs'" "\<forall>ys. m (out, c @ ys) = (Inl e, (out', ys))"
      by blast
    have "\<forall>ys. bind m f (out, c @ ys) = (r, (out', ys))"
      using c(2) r by (simp add: bind_def)
    with c(1) show ?thesis
      by blast
  next
    case (Inr v)
    then have f: "f v (o1, xs1) = (r, (out', xs'))"
      using run m by (simp add: bind_def)
    from frameD [OF assms(2) f ne]
    obtain c2 where c2: "xs1 = c2 @ xs'" "\<forall>ys. f v (o1, c2 @ ys) = (r, (out', ys))"
      by blast
    have "xs1 \<noteq> []"
      using c2(1) ne by simp
    from frameD [OF assms(1) m this]
    obtain c1 where c1: "xs = c1 @ xs1" "\<forall>ys. m (out, c1 @ ys) = (r1, (o1, ys))"
      by blast
    have "xs = (c1 @ c2) @ xs'"
      by (simp add: c1(1) c2(1))
    moreover have "\<forall>ys. bind m f (out, (c1 @ c2) @ ys) = (r, (out', ys))"
      using c1(2) c2(2) Inr by (simp add: bind_def)
    ultimately show ?thesis
      by blast
  qed
qed

lemma frame_if: "frame a \<Longrightarrow> frame b \<Longrightarrow> frame (if c then a else b)"
  by simp

lemma frame_case_option:
  "frame a \<Longrightarrow> (\<And>w. frame (b w)) \<Longrightarrow> frame (case x of None \<Rightarrow> a | Some w \<Rightarrow> b w)"
  by (cases x) simp_all

lemmas frame_intros =
  frame_bind frame_if frame_case_option frame_ret frame_raise frame_print frame_print_noend
  frame_unpack frame_f_read

lemma frame_read_string: "frame read_string"
  unfolding read_string_def by (intro frame_intros)

lemma frame_string_array_loop: "frame (string_array_loop k)"
proof (induction k)
  case 0
  show ?case
    unfolding string_array_loop.simps by (rule frame_ret)
next
  case (Suc k)
  show ?case
    unfolding string_array_loop.simps by (intro frame_intros Suc.IH)
qed

lemma frame_entry_body: "frame (entry_body i)"
  unfolding entry_body_def
  by (intro frame_intros frame_read_string frame_string_array_loop)

lemma frame_entry_iter: "frame (entry_iter i)"
  unfolding frame_def
proof (intro allI impI)
  fix out xs r out' and xs' :: "byte list"
  assume run: "entry_iter i (out, xs) = (r, (out', xs'))" and ne: "xs' \<noteq> []"
  obtain r1 o1 xs1 where b: "entry_body i (out, xs) = (r1, (o1, xs1))"
    by (metis prod_cases3)
  have x: "xs1 = xs'"
    using run b by (cases r1) (simp_all add: entry_iter_def)
  from frameD [OF frame_entry_body b [unfolded x] ne]
  obtain c where c: "xs = c @ xs'" "\<forall>ys. entry_body i (out, c @ ys) = (r1, (o1, ys))"
    by blast
  have "\<forall>ys. entry_iter i (out, c @ ys) = (r, (out', ys))"
    using run b c(2) by (cases r1) (auto simp add: entry_iter_def x)
  with c(1) show "\<exists>c. xs = c @ xs' \<and> (\<forall>ys. entry_iter i (out, c @ ys) = (r, (out', ys)))"
    by blast
qed

lemma entry_loop_Completed_step:
  assumes "i < k" "entry_loop i k s = (Inr Completed, s')"
  obtains s1 where "entry_iter i s = (Inr Next, s1)" "entry_loop (i + 1) k s1 = (Inr Completed, s')"
proof -
  obtain r s1 where it: "entry_iter i s = (r, s1)"
    by (cases "entry_iter i s")
  have "r = Inr Next \<and> entry_loop (i + 1) k s1 = (Inr Completed, s')"
    using assms it by (subst (asm) entry_loop.simps) (auto split: sum.splits flow.splits)
  with it that show thesis
    by blast
qed

lemma entry_loop_frame:
  "entry_loop i k (out, xs) = (Inr Completed, (out', T)) \<Longrightarrow> T \<noteq> [] \<Longrightarrow>
   \<exists>c. xs = c @ T \<and> (\<forall>ys. entry_loop i k (out, c @ ys) = (Inr Completed, (out', ys)))"
proof (induction "k - i" arbitrary: i out xs)
  case 0
  then have "\<not> i < k"
    by simp
  then have e: "\<And>s. entry_loop i k s = (Inr Completed, s)"
    by (rule entry_loop_done)
  from "0.prems"(1) have "out' = out" "T = xs"
    by (simp_all add: e)
  then have "xs = [] @ T \<and> (\<forall>ys. entry_loop i k (out, [] @ ys) = (Inr Completed, (out', ys)))"
    by (simp add: e)
  then show ?case
    by blast
next
  case (Suc d)
  then have lt: "i < k"
    by simp
  from entry_loop_Completed_step [OF lt Suc.prems(1)]
  obtain s1 where it: "entry_iter i (out, xs) = (Inr Next, s1)"
    and rest: "entry_loop (i + 1) k s1 = (Inr Completed, (out', T))"
    by blast
  obtain o1 x1 where s1: "s1 = (o1, x1)"
    by (cases s1)
  have "d = k - (i + 1)"
    using Suc.hyps(2) by simp
  from Suc.hyps(1) [OF this rest [unfolded s1] Suc.prems(2)]
  obtain c2 where c2: "x1 = c2 @ T"
    "\<forall>ys. entry_loop (i + 1) k (o1, c2 @ ys) = (Inr Completed, (out', ys))"
    by blast
  have "x1 \<noteq> []"
    using c2(1) Suc.prems(2) by simp
  from frameD [OF frame_entry_iter it [unfolded s1] this]
  obtain c1 where c1: "xs = c1 @ x1" "\<forall>ys. entry_iter i (out, c1 @ ys) = (Inr Next, (o1, ys))"
    by blast
  have "xs = (c1 @ c2) @ T"
    by (simp add: c1(1) c2(1))
  moreover have "\<forall>ys. entry_loop i k (out, (c1 @ c2) @ ys) = (Inr Completed, (out', ys))"
  proof
    fix ys
    have "entry_iter i (out, (c1 @ c2) @ ys) = (Inr Next, (o1, c2 @ ys))"
      using c1(2) by simp
    then have "entry_loop i k (out, (c1 @ c2) @ ys) = entry_loop (i + 1) k (o1, c2 @ ys)"
      using lt by (subst entry_loop.simps) simp
    then show "entry_loop i k (out, (c1 @ c2) @ ys) = (Inr Completed, (out', ys))"
      using c2(2) by simp
  qed
  ultimately show ?case
    by blast
qed

lemma entry_loop_extend:
  "i \<le> k \<Longrightarrow> k \<le> n \<Longrightarrow> entry_loop i k s = (Inr Completed, s') \<Longrightarrow>
   entry_loop i n s = entry_loop k n s'"
proof (induction "k - i" arbitrary: i s)
  case 0
  then have "i = k"
    by simp
  then show ?case
    using "0.prems"(3) by (simp add: entry_loop_done)
next
  case (Suc d)
  then have lt: "i < k"
    by simp
  from entry_loop_Completed_step [OF lt Suc.prems(3)]
  obtain s1 where it: "entry_iter i s = (Inr Next, s1)"
    and rest: "entry_loop (i + 1) k s1 = (Inr Completed, s')"
    by blast
  have "entry_loop i n s = entry_loop (i + 1) n s1"
    using lt Suc.prems(2) it by (subst entry_loop.simps) simp
  also have "\<dots> = entry_loop k n s'"
    using Suc.hyps(2) lt Suc.prems(2) rest by (intro Suc.hyps(1)) simp_all
  finally show ?case .
qed

lemma pack_le_8_append_ne: "pack_le 8 n @ xs \<noteq> []"
proof
  assume "pack_le 8 n @ xs = []"
  then have "length (pack_le 8 n @ xs) = 0"
    by simp
  then show False
    by simp
qed

text \<open>
  C10. Two files that differ only in the payload of one STRING value (\<open>p1\<close> and \<open>p2\<close>, of
  the same declared length, at most 10000) whose key is not the watched key: when the run
  on the first file completes \<open>k\<close> iterations and then stands at that entry (\<open>pre\<close> are the
  bytes of the earlier entries, \<open>out\<close> the report so far), with \<open>k\<close> below the bound of the
  loop, then the two runs of \<open>read_gguf_metadata\<close> end in the same way, with the same
  report and the same unread rest of the file: the payload was consumed and never looked
  at.
\<close>

theorem string_payload_not_inspected:
  assumes "magic < 2 ^ 32" "version < 2 ^ 32" "tensor_count < 2 ^ 64" "kv_count < 2 ^ 64"
    and "k < min kv_count 50"
    and "entry_loop 0 k (header_text magic version tensor_count kv_count,
                         pre @ pack_str kb @ pack_le 4 8 @ pack_str p1 @ rest) =
           (Inr Completed, (out, pack_str kb @ pack_le 4 8 @ pack_str p1 @ rest))"
    and "length kb \<le> 10000" "bytes_decode kb \<noteq> lit ''<CORRUPTED>''"
      "bytes_decode kb \<noteq> watch_key"
    and "length p1 \<le> 10000" "length p2 = length p1"
  shows "read_gguf_metadata (pack_header magic version tensor_count kv_count
                             @ pre @ pack_str kb @ pack_le 4 8 @ pack_str p1 @ rest) =
         read_gguf_metadata (pack_header magic version tensor_count kv_count
                             @ pre @ pack_str kb @ pack_le 4 8 @ pack_str p2 @ rest)"
proof -
  let ?H = "header_text magic version tensor_count kv_count"
  let ?n = "min kv_count 50"
  let ?T = "\<lambda>p. pack_str kb @ pack_le 4 8 @ pack_str p @ rest"
  have ne: "?T p1 \<noteq> []"
    using pack_le_8_append_ne [of "length kb" "kb @ pack_le 4 8 @ pack_str p1 @ rest"] by simp
  from entry_loop_frame [OF assms(6) ne]
  obtain c where c: "pre @ ?T p1 = c @ ?T p1"
    "\<forall>ys. entry_loop 0 k (?H, c @ ys) = (Inr Completed, (out, ys))"
    by blast
  have "c = pre"
    using c(1) by simp
  then have reach2: "entry_loop 0 k (?H, pre @ ?T p2) = (Inr Completed, (out, ?T p2))"
    using c(2) by simp
  have kn: "k \<le> ?n"
    using assms(5) by simp
  have l2: "length p2 \<le> 10000"
    using assms(10,11) by simp
  have step: "\<And>p. length p \<le> 10000 \<Longrightarrow>
      entry_loop k ?n (out, ?T p) = entry_loop (k + 1) ?n (out @ entry_head k (bytes_decode kb) 8, rest)"
  proof -
    fix p :: "byte list"
    assume "length p \<le> 10000"
    from entry_loop_next [OF assms(5) body_string_ok [OF assms(7,8) this]]
    show "entry_loop k ?n (out, ?T p) =
        entry_loop (k + 1) ?n (out @ entry_head k (bytes_decode kb) 8, rest)"
      using assms(9) by simp
  qed
  have "entry_loop 0 ?n (?H, pre @ ?T p1) = entry_loop k ?n (out, ?T p1)"
    by (rule entry_loop_extend [OF _ kn assms(6)]) simp
  also have "\<dots> = entry_loop k ?n (out, ?T p2)"
    by (simp only: step [OF assms(10)] step [OF l2])
  also have "\<dots> = entry_loop 0 ?n (?H, pre @ ?T p2)"
    by (rule entry_loop_extend [OF _ kn reach2, symmetric]) simp
  finally show ?thesis
    using assms(1-4) by (simp add: read_gguf_metadata_header)
qed

theorem string_payload_not_inspected_witness:
  "(1179993415::nat) < 2 ^ 32 \<and> (3::nat) < 2 ^ 32 \<and> (0::nat) < 2 ^ 64 \<and> (2::nat) < 2 ^ 64
   \<and> (1::nat) < min 2 50
   \<and> entry_loop 0 1 (header_text 1179993415 3 0 2,
         (pack_str (ascii ''k'') @ pack_le 4 5 @ ascii ''WXYZ'')
         @ pack_str (ascii ''name'') @ pack_le 4 8 @ pack_str (ascii ''aaaa'') @ ascii ''tail'') =
       (Inr Completed,
        (header_text 1179993415 3 0 2 @ entry_head 0 (lit ''k'') 5,
         pack_str (ascii ''name'') @ pack_le 4 8 @ pack_str (ascii ''aaaa'') @ ascii ''tail''))
   \<and> length (ascii ''name'') \<le> 10000
   \<and> bytes_decode (ascii ''name'') \<noteq> lit ''<CORRUPTED>''
   \<and> bytes_decode (ascii ''name'') \<noteq> watch_key
   \<and> length (ascii ''aaaa'') \<le> 10000 \<and> length (ascii ''bbbb'') = length (ascii ''aaaa'')
   \<and> read_gguf_metadata (pack_header 1179993415 3 0 2
         @ (pack_str (ascii ''k'') @ pack_le 4 5 @ ascii ''WXYZ'')
         @ pack_str (ascii ''name'') @ pack_le 4 8 @ pack_str (ascii ''aaaa'') @ ascii ''tail'') =
       read_gguf_metadata (pack_header 1179993415 3 0 2
         @ (pack_str (ascii ''k'') @ pack_le 4 5 @ ascii ''WXYZ'')
         @ pack_str (ascii ''name'') @ pack_le 4 8 @ pack_str (ascii ''bbbb'') @ ascii ''tail'')"
proof -
  let ?H = "header_text 1179993415 3 0 2"
  let ?T = "pack_str (ascii ''name'') @ pack_le 4 8 @ pack_str (ascii ''aaaa'') @ ascii ''tail''"
  have b: "entry_body 0 (?H, pack_str (ascii ''k'') @ pack_le 4 5 @ ascii ''WXYZ'' @ ?T) =
      (Inr Next, (?H @ entry_head 0 (bytes_decode (ascii ''k'')) 5, ?T))"
    by (rule body_scalar) (simp_all add: lit_k k_not_sentinel type_sizes_5)
  have "entry_loop 0 1 (?H, pack_str (ascii ''k'') @ pack_le 4 5 @ ascii ''WXYZ'' @ ?T) =
      entry_loop (0 + 1) 1 (?H @ entry_head 0 (bytes_decode (ascii ''k'')) 5, ?T)"
    by (rule entry_loop_next [OF _ b]) simp
  then have reach: "entry_loop 0 1 (?H, (pack_str (ascii ''k'') @ pack_le 4 5 @ ascii ''WXYZ'') @ ?T) =
      (Inr Completed, (?H @ entry_head 0 (lit ''k'') 5, ?T))"
    by (simp add: entry_loop_done lit_k)
  show ?thesis
    using reach
      string_payload_not_inspected
        [where magic = 1179993415 and version = 3 and tensor_count = 0 and kv_count = 2
           and k = 1 and pre = "pack_str (ascii ''k'') @ pack_le 4 5 @ ascii ''WXYZ''"
           and kb = "ascii ''name''" and ?p1.0 = "ascii ''aaaa''" and ?p2.0 = "ascii ''bbbb''"
           and rest = "ascii ''tail''"
           and out = "header_text 1179993415 3 0 2 @ entry_head 0 (lit ''k'') 5"]
    by (simp add: lit_name name_not_sentinel name_not_watch)
qed

end
